theory Spec2Isabelle
  imports Complex_Main "HOL-Library.Sublist"
begin

section \<open>Data model: rows of the \<open>live_fleet\<close> table as the client sees them\<close>

text \<open>
  A bus is a JavaScript object decoded from a row of \<open>public.live_fleet\<close>
  (id UUID, route_no TEXT, lat FLOAT8, lng FLOAT8, crowd_level TEXT, last_stop TEXT,
  is_active BOOLEAN, updated_at TIMESTAMPTZ). A property of such an object is missing
  (it reads as \<open>undefined\<close>; so does every property of the empty object that the
  realtime client puts in \<open>payload.old\<close> of an insert), or it is \<open>null\<close> (a null
  column), or it has a value. \<open>===\<close> on two properties is equality of these: missing
  equals missing, null equals null, and values are compared.
\<close>

datatype 'a property = Missing | Null | Val 'a

text \<open>
  \<open>lat\<close> and \<open>lng\<close> are the numbers of the row, \<open>updated_at\<close> the instant of the
  timestamp in milliseconds. The application never reads \<open>crowd_level\<close>, \<open>is_active\<close>
  or \<open>updated_at\<close> of a row.
\<close>

record bus =
  bus_id :: "string property"
  route_no :: "string property"
  lat :: "real property"
  lng :: "real property"
  crowd_level :: "string property"
  last_stop :: "string property"
  is_active :: "bool property"
  updated_at :: "int property"

text \<open>
  The payload of a \<open>postgres_changes\<close> message, with the three properties the handler
  reads: \<open>eventType\<close>, \<open>new\<close> and \<open>old\<close> (both always objects, possibly empty).
\<close>

record payload =
  eventType :: string
  new :: bus
  old :: bus

section \<open>The store and the change-event handler (\<open>App\<close>, section 3a)\<close>

text \<open>
  The store is the React state \<open>buses\<close>, an array. \<open>fetchBuses\<close> replaces it by the
  rows fetched, when there are any data.
\<close>

definition fetchBuses :: "bus list option \<Rightarrow> bus list \<Rightarrow> bus list" where
  "fetchBuses data prev = (case data of None \<Rightarrow> prev | Some rows \<Rightarrow> rows)"

text \<open>
  The callback given to \<open>.on('postgres_changes', ...)\<close>: the function from the previous
  array to the next one that it hands to \<open>setBuses\<close>; no branch is taken, and no state
  update is made, for any other \<open>eventType\<close>.
\<close>

definition on_change :: "payload \<Rightarrow> bus list \<Rightarrow> bus list" where
  "on_change p prev =
     (if eventType p = ''INSERT'' then prev @ [new p]
      else if eventType p = ''UPDATE'' then
        map (\<lambda>b. if bus_id b = bus_id (new p) then new p else b) prev
      else if eventType p = ''DELETE'' then
        filter (\<lambda>b. bus_id b \<noteq> bus_id (old p)) prev
      else prev)"

text \<open>A sequence of messages, applied in arrival order.\<close>

fun on_changes :: "payload list \<Rightarrow> bus list \<Rightarrow> bus list" where
  "on_changes [] prev = prev"
| "on_changes (p # ps) prev = on_changes ps (on_change p prev)"

section \<open>The driver's view of the fleet (\<open>App\<close>, driver dashboard)\<close>

text \<open>
  The list handed to the map of the driver dashboard:
  \<open>buses.filter(b => b.route_no === '15')\<close>. The passenger and the admin views hand
  the whole store over.
\<close>

definition driver_projection :: "bus list \<Rightarrow> bus list" where
  "driver_projection bs = filter (\<lambda>b. route_no b = Val ''15'') bs"

section \<open>Position broadcast (\<open>App\<close>, section 3b)\<close>

text \<open>
  The request the geolocation callback sends for one position sample:
  \<open>from('live_fleet').update({lat, lng, updated_at}).eq('route_no', '15')\<close>.
  \<open>latitude\<close> and \<open>longitude\<close> come from \<open>pos.coords\<close>, \<open>now\<close> is the clock read
  by \<open>new Date()\<close>.
\<close>

record position_update =
  set_lat :: real
  set_lng :: real
  set_updated_at :: int
  eq_route_no :: string

definition watch_callback :: "real \<Rightarrow> real \<Rightarrow> int \<Rightarrow> position_update" where
  "watch_callback latitude longitude now =
     \<lparr>set_lat = latitude, set_lng = longitude, set_updated_at = now, eq_route_no = ''15''\<rparr>"

text \<open>
  What the request does to the table: an update with an equality filter assigns the
  given columns in every row that passes the filter and touches no other row.
\<close>

definition run_update :: "position_update \<Rightarrow> bus list \<Rightarrow> bus list" where
  "run_update u table =
     map (\<lambda>r. if route_no r = Val (eq_route_no u)
               then r\<lparr>lat := Val (set_lat u), lng := Val (set_lng u),
                      updated_at := Val (set_updated_at u)\<rparr>
               else r) table"

text \<open>
  The state of \<open>App\<close> that tracking depends on, and the three buttons that change
  \<open>isTracking\<close>: Operator on the role screen, Break/Resume and End Trip on the driver
  dashboard. The position watch is registered exactly while \<open>isTracking\<close> holds on the
  driver dashboard; the cleanup of the effect clears it.
\<close>

record app =
  view :: string
  buses :: "bus list"
  isTracking :: bool

definition select_operator :: "app \<Rightarrow> app" where
  "select_operator s = s\<lparr>view := ''driverDashboard'', isTracking := True\<rparr>"

definition toggle_tracking :: "app \<Rightarrow> app" where
  "toggle_tracking s = s\<lparr>isTracking := \<not> isTracking s\<rparr>"

definition end_trip :: "app \<Rightarrow> app" where
  "end_trip s = s\<lparr>view := ''roleSelection'', isTracking := False\<rparr>"

definition watching :: "app \<Rightarrow> bool" where
  "watching s = (isTracking s \<and> view s = ''driverDashboard'')"

section \<open>Marker reconciliation (\<open>LiveMap\<close>)\<close>

text \<open>
  The map library is not part of the repository; the effect calls its markers with the
  pair \<open>[bus.lng, bus.lat]\<close>. What the library does with such a pair (\<open>LngLat.convert\<close>
  and the constructor of \<open>LngLat\<close>) is written here as the library defines it: each
  entry goes through \<open>Number\<close>, so a missing one becomes NaN and \<open>null\<close> becomes 0; an
  error is thrown if either is NaN, and if the latitude is above 90 or below -90. The
  longitude is not checked. \<open>None\<close> is the thrown error.
\<close>

definition to_number :: "real property \<Rightarrow> real option" where
  "to_number v = (case v of Missing \<Rightarrow> None | Null \<Rightarrow> Some 0 | Val x \<Rightarrow> Some x)"

definition LngLat_convert :: "real property \<Rightarrow> real property \<Rightarrow> (real \<times> real) option" where
  "LngLat_convert lo la =
     (case (to_number lo, to_number la) of
        (Some x, Some y) \<Rightarrow> if y > 90 \<or> y < - 90 then None else Some (x, y)
      | _ \<Rightarrow> None)"

text \<open>
  A marker is the \<open>div\<close> element made for it (elements are numbered in the order of
  their creation), the position that \<open>setLngLat\<close> last gave it, as longitude and
  latitude, and the two values interpolated into its popup when it was made.
\<close>

record marker =
  el :: nat
  lngLat :: "real \<times> real"
  popup :: "string property \<times> string property"

text \<open>
  The refs of the component: whether \<open>map.current\<close> is set, the object
  \<open>markers.current\<close> from property keys to markers, and the number of elements made so
  far.
\<close>

record livemap =
  map_current :: bool
  markers :: "string \<rightharpoonup> marker"
  next_el :: nat

definition init_map :: "livemap \<Rightarrow> livemap" where
  "init_map st = (if map_current st then st else st\<lparr>map_current := True\<rparr>)"

text \<open>The property key that \<open>markers.current[bus.id]\<close> uses: a missing id and a null
  id are turned into the strings \<open>undefined\<close> and \<open>null\<close>.\<close>

definition key_of :: "bus \<Rightarrow> string" where
  "key_of b = (case bus_id b of Missing \<Rightarrow> ''undefined'' | Null \<Rightarrow> ''null'' | Val i \<Rightarrow> i)"

text \<open>First loop: every key for which \<open>buses.find(b => b.id === id)\<close> finds nothing
  has its marker removed and is deleted.\<close>

definition remove_missing :: "bus list \<Rightarrow> (string \<rightharpoonup> marker) \<Rightarrow> (string \<rightharpoonup> marker)" where
  "remove_missing bs ms = (\<lambda>k. if (\<exists>b\<in>set bs. bus_id b = Val k) then ms k else None)"

text \<open>
  \<open>markers.current\<close> starts as the object literal \<open>{}\<close>, so reading a key that it does
  not own falls through to the properties that every object inherits. Each of them is
  truthy and has no \<open>setLngLat\<close>: for such a key the test of the second loop succeeds and
  the call raises a TypeError. The other exception of the loop is the error that the
  map library throws for a pair it does not accept.
\<close>

datatype error = TypeError | InvalidLngLat

definition inherited_keys :: "string list" where
  "inherited_keys =
     [''constructor'', ''__defineGetter__'', ''__defineSetter__'', ''hasOwnProperty'',
      ''__lookupGetter__'', ''__lookupSetter__'', ''isPrototypeOf'', ''propertyIsEnumerable'',
      ''toString'', ''valueOf'', ''__proto__'', ''toLocaleString'']"

text \<open>Body of the second loop: move the marker of the bus when there is one, make a
  new one otherwise; in both branches \<open>setLngLat\<close> is called with the pair of the bus,
  and nothing is stored when it throws.\<close>

definition place_bus :: "bus \<Rightarrow> livemap \<Rightarrow> error + livemap" where
  "place_bus b st =
     (case markers st (key_of b) of
        Some m \<Rightarrow>
          (case LngLat_convert (lng b) (lat b) of
             None \<Rightarrow> Inl InvalidLngLat
           | Some ll \<Rightarrow> Inr (st\<lparr>markers := (markers st)(key_of b \<mapsto> m\<lparr>lngLat := ll\<rparr>)\<rparr>))
      | None \<Rightarrow>
          if key_of b \<in> set inherited_keys then Inl TypeError
          else
            (case LngLat_convert (lng b) (lat b) of
               None \<Rightarrow> Inl InvalidLngLat
             | Some ll \<Rightarrow>
                 Inr (st\<lparr>markers := (markers st)(key_of b \<mapsto>
                          \<lparr>el = next_el st, lngLat = ll, popup = (route_no b, last_stop b)\<rparr>),
                        next_el := Suc (next_el st)\<rparr>)))"

text \<open>The second loop, \<open>buses.forEach\<close>; an exception ends it.\<close>

fun place_all :: "bus list \<Rightarrow> livemap \<Rightarrow> error + livemap" where
  "place_all [] st = Inr st"
| "place_all (b # bs) st =
     (case place_bus b st of Inl e \<Rightarrow> Inl e | Inr st' \<Rightarrow> place_all bs st')"

text \<open>The effect that runs for each new \<open>buses\<close> prop.\<close>

definition reconcile :: "bus list \<Rightarrow> livemap \<Rightarrow> error + livemap" where
  "reconcile bs st =
     (if \<not> map_current st then Inr st
      else place_all bs (st\<lparr>markers := remove_missing bs (markers st)\<rparr>))"

text \<open>A run of the effect for each list of a sequence of projections.\<close>

fun reconcile_all :: "bus list list \<Rightarrow> livemap \<Rightarrow> error + livemap" where
  "reconcile_all [] st = Inr st"
| "reconcile_all (bs # bss) st =
     (case reconcile bs st of Inl e \<Rightarrow> Inl e | Inr st' \<Rightarrow> reconcile_all bss st')"

text \<open>A bus whose id is there and is not the name of an inherited property; the ids of
  the table are UUIDs, so every row of it is such a bus.\<close>

definition plain_id :: "bus \<Rightarrow> bool" where
  "plain_id b = (case bus_id b of Val i \<Rightarrow> i \<notin> set inherited_keys | _ \<Rightarrow> False)"

text \<open>A bus that the second loop can place: its id is plain and the map library accepts
  its pair of coordinates.\<close>

definition placeable :: "bus \<Rightarrow> bool" where
  "placeable b = (plain_id b \<and> LngLat_convert (lng b) (lat b) \<noteq> None)"

section \<open>The specification's vocabulary\<close>

text \<open>
  The specification speaks of checks that the handler does not make. They are written
  here after the specification's words, each under a name starting with \<open>spec_\<close>, to
  state what the specification asks and to compare it with the handler.
\<close>

text \<open>I3: the timestamp of an event is the \<open>updated_at\<close> that comes with it; it is older
  than a stored snapshot when both are known and it is smaller.\<close>

definition spec_timestamp :: "payload \<Rightarrow> int property" where
  "spec_timestamp p = (if eventType p = ''DELETE'' then updated_at (old p) else updated_at (new p))"

definition spec_older :: "payload \<Rightarrow> bus \<Rightarrow> bool" where
  "spec_older p b =
     (case (spec_timestamp p, updated_at b) of (Val t, Val u) \<Rightarrow> t < u | _ \<Rightarrow> False)"

text \<open>I1: at most one snapshot for each id.\<close>

definition spec_unique_ids :: "bus list \<Rightarrow> bool" where
  "spec_unique_ids bs = distinct (map bus_id bs)"

text \<open>Update by merge: a field present in the payload overrides, with its value or
  its null; a field missing from the payload is retained.\<close>

definition spec_override :: "'a property \<Rightarrow> 'a property \<Rightarrow> 'a property" where
  "spec_override stored given = (case given of Missing \<Rightarrow> stored | _ \<Rightarrow> given)"

definition spec_merge :: "bus \<Rightarrow> bus \<Rightarrow> bus" where
  "spec_merge b pl =
     \<lparr>bus_id = spec_override (bus_id b) (bus_id pl),
      route_no = spec_override (route_no b) (route_no pl),
      lat = spec_override (lat b) (lat pl),
      lng = spec_override (lng b) (lng pl),
      crowd_level = spec_override (crowd_level b) (crowd_level pl),
      last_stop = spec_override (last_stop b) (last_stop pl),
      is_active = spec_override (is_active b) (is_active pl),
      updated_at = spec_override (updated_at b) (updated_at pl)\<rparr>"

text \<open>The payload misses no field that the stored snapshot has.\<close>

definition spec_covers :: "bus \<Rightarrow> bus \<Rightarrow> bool" where
  "spec_covers pl b =
     ((bus_id pl = Missing \<longrightarrow> bus_id b = Missing) \<and>
      (route_no pl = Missing \<longrightarrow> route_no b = Missing) \<and>
      (lat pl = Missing \<longrightarrow> lat b = Missing) \<and> (lng pl = Missing \<longrightarrow> lng b = Missing) \<and>
      (crowd_level pl = Missing \<longrightarrow> crowd_level b = Missing) \<and>
      (last_stop pl = Missing \<longrightarrow> last_stop b = Missing) \<and>
      (is_active pl = Missing \<longrightarrow> is_active b = Missing) \<and>
      (updated_at pl = Missing \<longrightarrow> updated_at b = Missing))"

text \<open>Validation: the required fields of a row are its id, its route and its position
  (the columns that cannot be null); a position is valid in [-90,90] x [-180,180]. An
  insert or update is malformed when its row has no value for a required field or has
  a position out of range, a delete when the id has no value.\<close>

definition spec_valid_position :: "real \<Rightarrow> real \<Rightarrow> bool" where
  "spec_valid_position la lo = (- 90 \<le> la \<and> la \<le> 90 \<and> - 180 \<le> lo \<and> lo \<le> 180)"

definition has_value :: "'a property \<Rightarrow> bool" where
  "has_value v = (case v of Val x \<Rightarrow> True | _ \<Rightarrow> False)"

definition spec_valid_row :: "bus \<Rightarrow> bool" where
  "spec_valid_row r =
     (has_value (bus_id r) \<and> has_value (route_no r) \<and>
      (case (lat r, lng r) of (Val la, Val lo) \<Rightarrow> spec_valid_position la lo | _ \<Rightarrow> False))"

definition spec_malformed :: "payload \<Rightarrow> bool" where
  "spec_malformed p =
     (if eventType p = ''DELETE'' then \<not> has_value (bus_id (old p))
      else \<not> spec_valid_row (new p))"

text \<open>An accepted event (steps 1 to 3 of the reducer): it is not malformed, it carries
  a timestamp, and it is not older than the stored snapshot it is for.\<close>

definition spec_accepted :: "payload \<Rightarrow> bus \<Rightarrow> bool" where
  "spec_accepted p b =
     (\<not> spec_malformed p \<and> has_value (spec_timestamp p) \<and> \<not> spec_older p b)"

section \<open>Sample rows and messages\<close>

text \<open>The empty object, and a complete row with a given id, route and timestamp (the
  place is that of the first sample row of the schema).\<close>

definition no_row :: bus where
  "no_row = \<lparr>bus_id = Missing, route_no = Missing, lat = Missing, lng = Missing, crowd_level = Missing,
             last_stop = Missing, is_active = Missing, updated_at = Missing\<rparr>"

definition row :: "string \<Rightarrow> string \<Rightarrow> int \<Rightarrow> bus" where
  "row i r t = \<lparr>bus_id = Val i, route_no = Val r, lat = Val 12.8654, lng = Val 74.8427,
               crowd_level = Val ''Low'', last_stop = Val ''State Bank'',
               is_active = Val True, updated_at = Val t\<rparr>"

text \<open>A partial row: an id and a position, nothing else.\<close>

definition position_only :: "string \<Rightarrow> real \<Rightarrow> real \<Rightarrow> bus" where
  "position_only i la lo = no_row\<lparr>bus_id := Val i, lat := Val la, lng := Val lo\<rparr>"

definition insert_of :: "bus \<Rightarrow> payload" where
  "insert_of r = \<lparr>eventType = ''INSERT'', new = r, old = no_row\<rparr>"

definition update_of :: "bus \<Rightarrow> payload" where
  "update_of r = \<lparr>eventType = ''UPDATE'', new = r, old = no_row\<lparr>bus_id := bus_id r\<rparr>\<rparr>"

definition delete_of :: "bus \<Rightarrow> payload" where
  "delete_of r = \<lparr>eventType = ''DELETE'', new = no_row, old = r\<rparr>"

text \<open>A row at another place, and the refs of a map that shows two buses.\<close>

definition moved :: "bus \<Rightarrow> real \<Rightarrow> real \<Rightarrow> bus" where
  "moved b la lo = b\<lparr>lat := Val la, lng := Val lo\<rparr>"

definition sample_map :: livemap where
  "sample_map =
     \<lparr>map_current = True,
      markers = [''b1'' \<mapsto> \<lparr>el = 0, lngLat = (74.8427, 12.8654),
                              popup = (Val ''15'', Val ''State Bank'')\<rparr>,
                 ''b3'' \<mapsto> \<lparr>el = 1, lngLat = (74.8427, 12.8654),
                              popup = (Val ''27'', Val ''State Bank'')\<rparr>],
      next_el = 2\<rparr>"

definition sample_app :: app where
  "sample_app = \<lparr>view = ''driverDashboard'', buses = [row ''b1'' ''15'' 1], isTracking = True\<rparr>"

section \<open>The handler, branch by branch\<close>

lemma on_change_insert: "eventType p = ''INSERT'' \<Longrightarrow> on_change p prev = prev @ [new p]"
  by (simp add: on_change_def)

lemma on_change_update:
  "eventType p = ''UPDATE'' \<Longrightarrow>
   on_change p prev = map (\<lambda>b. if bus_id b = bus_id (new p) then new p else b) prev"
  by (simp add: on_change_def)

lemma on_change_delete:
  "eventType p = ''DELETE'' \<Longrightarrow> on_change p prev = filter (\<lambda>b. bus_id b \<noteq> bus_id (old p)) prev"
  by (simp add: on_change_def)

lemma update_ids: "eventType p = ''UPDATE'' \<Longrightarrow> map bus_id (on_change p prev) = map bus_id prev"
  by (simp add: on_change_update)

lemma event_cases:
  obtains (ins) "eventType p = ''INSERT''" | (upd) "eventType p = ''UPDATE''"
    | (del) "eventType p = ''DELETE''"
    | (other) "eventType p \<noteq> ''INSERT''" "eventType p \<noteq> ''UPDATE''" "eventType p \<noteq> ''DELETE''"
  by blast

lemma no_new_ids:
  assumes "eventType p \<noteq> ''INSERT''"
  shows "bus_id ` set (on_change p prev) \<subseteq> bus_id ` set prev"
proof (cases p rule: event_cases)
  case ins
  with assms show ?thesis by simp
next
  case upd
  have "bus_id ` set (on_change p prev) = set (map bus_id (on_change p prev))" by simp
  also have "\<dots> = set (map bus_id prev)" using upd by (simp only: update_ids)
  finally show ?thesis by simp
next
  case del
  then show ?thesis by (auto simp: on_change_delete)
next
  case other
  then show ?thesis by (simp add: on_change_def)
qed

lemmas samples = no_row_def row_def position_only_def insert_of_def update_of_def delete_of_def

section \<open>Timestamps and arrival order\<close>

text \<open>
  C1 as the specification states it: an update or delete older than the stored snapshot
  is a no-op, so of two updates the one with the greater timestamp wins in either order.
  The handler compares no timestamps. An update stamped 5 replaces a snapshot stamped
  10, and of the updates stamped 10 and 5, arriving in this order, the one stamped 5
  stays.
\<close>

theorem stale_update_applied_counterexample:
  "spec_older (update_of (row ''b1'' ''15'' 5)) (row ''b1'' ''15'' 10) \<and>
   on_change (update_of (row ''b1'' ''15'' 5)) [row ''b1'' ''15'' 10] \<noteq> [row ''b1'' ''15'' 10] \<and>
   on_changes [update_of (row ''b1'' ''15'' 10), update_of (row ''b1'' ''15'' 5)] [row ''b1'' ''15'' 1]
     = [row ''b1'' ''15'' 5]"
  by (simp add: samples spec_older_def spec_timestamp_def on_change_def)

text \<open>
  C1, amended. An update or delete for a stored id is applied whatever its timestamp:
  after an update every snapshot with the id of the payload is the payload's row, and
  there is one if the id was stored; after a delete no snapshot with the id is left.
  Of two updates for the same id applied one after the other, the second decides: the
  store is the one that the second alone would have produced (the last to arrive wins).
\<close>

theorem arrival_order_wins:
  "(eventType u = ''UPDATE'' \<longrightarrow>
      (\<forall>c\<in>set (on_change u prev). bus_id c = bus_id (new u) \<longrightarrow> c = new u) \<and>
      ((\<exists>b\<in>set prev. bus_id b = bus_id (new u)) \<longrightarrow> new u \<in> set (on_change u prev)) \<and>
      (eventType v = ''UPDATE'' \<and> bus_id (new v) = bus_id (new u) \<longrightarrow>
         on_change v (on_change u prev) = on_change v prev)) \<and>
   (eventType u = ''DELETE'' \<longrightarrow> (\<forall>c\<in>set (on_change u prev). bus_id c \<noteq> bus_id (old u)))"
  by (auto simp: on_change_update on_change_delete)

theorem arrival_order_wins_witness:
  "spec_older (update_of (row ''b1'' ''15'' 5)) (row ''b1'' ''15'' 10) \<and>
   row ''b1'' ''15'' 5 \<in> set (on_change (update_of (row ''b1'' ''15'' 5)) [row ''b1'' ''15'' 10]) \<and>
   on_change (update_of (row ''b1'' ''15'' 5))
       (on_change (update_of (row ''b1'' ''15'' 10)) [row ''b1'' ''15'' 1])
     = on_change (update_of (row ''b1'' ''15'' 5)) [row ''b1'' ''15'' 1] \<and>
   spec_older (delete_of (row ''b1'' ''15'' 5)) (row ''b1'' ''15'' 10) \<and>
   row ''b1'' ''15'' 10 \<notin> set (on_change (delete_of (row ''b1'' ''15'' 5)) [row ''b1'' ''15'' 10])"
  using arrival_order_wins
      [of "update_of (row ''b1'' ''15'' 5)" "[row ''b1'' ''15'' 10]" "update_of (row ''b1'' ''15'' 5)"]
    arrival_order_wins
      [of "update_of (row ''b1'' ''15'' 10)" "[row ''b1'' ''15'' 1]" "update_of (row ''b1'' ''15'' 5)"]
    arrival_order_wins [of "delete_of (row ''b1'' ''15'' 5)" "[row ''b1'' ''15'' 10]"]
  by (simp add: samples spec_older_def spec_timestamp_def on_change_def)

section \<open>Applying an event twice\<close>

text \<open>
  C2 as the specification states it: any event applied twice gives the store of applying
  it once. An insert applied twice to the empty store leaves two entries, not one.
\<close>

theorem insert_twice_counterexample:
  "on_change (insert_of (row ''b1'' ''15'' 1)) (on_change (insert_of (row ''b1'' ''15'' 1)) [])
     \<noteq> on_change (insert_of (row ''b1'' ''15'' 1)) []"
  by (simp add: samples on_change_def)

text \<open>
  C2, amended. For every store and every event that is not an insert (an update, a
  delete, or a message of another type), applying the event twice in succession gives
  the same store as applying it once; an insert applied twice appends its row twice.
\<close>

theorem repeat_event:
  "(eventType p \<noteq> ''INSERT'' \<longrightarrow> on_change p (on_change p prev) = on_change p prev) \<and>
   (eventType p = ''INSERT'' \<longrightarrow> on_change p (on_change p prev) = on_change p prev @ [new p])"
  by (auto simp: on_change_def)

theorem repeat_event_witness:
  "on_change (update_of (row ''b1'' ''27'' 2))
       (on_change (update_of (row ''b1'' ''27'' 2)) [row ''b1'' ''15'' 1])
     = on_change (update_of (row ''b1'' ''27'' 2)) [row ''b1'' ''15'' 1] \<and>
   on_change (insert_of (row ''b2'' ''27'' 2))
       (on_change (insert_of (row ''b2'' ''27'' 2)) [row ''b1'' ''15'' 1])
     = [row ''b1'' ''15'' 1, row ''b2'' ''27'' 2, row ''b2'' ''27'' 2]"
  using repeat_event [of "update_of (row ''b1'' ''27'' 2)" "[row ''b1'' ''15'' 1]"]
    repeat_event [of "insert_of (row ''b2'' ''27'' 2)" "[row ''b1'' ''15'' 1]"]
  by (simp add: samples on_change_def)

section \<open>Update after delete\<close>

text \<open>
  C3 as the specification states it: after a delete for A, a newer update for A brings
  A back with the fields of the payload. The handler's update only maps over the rows
  that are there: the delete stamped 5 followed by the update stamped 10 leaves the
  store empty.
\<close>

theorem update_after_delete_counterexample:
  "on_changes [delete_of (row ''A'' ''15'' 5), update_of (row ''A'' ''15'' 10)] [row ''A'' ''15'' 1] = []"
  by (simp add: samples on_change_def)

text \<open>
  C3, amended. After a delete for id A has been applied, an update for A, whatever its
  timestamp, leaves the store as the delete left it, with A absent; A comes back only
  with an insert, whose row is then in the store: after any event that is not an
  insert, A is still absent.
\<close>

theorem update_after_delete_absent:
  assumes "eventType d = ''DELETE''" and "eventType u = ''UPDATE''"
    and "bus_id (new u) = bus_id (old d)"
  shows "on_change u (on_change d prev) = on_change d prev \<and>
         (\<forall>b\<in>set (on_change u (on_change d prev)). bus_id b \<noteq> bus_id (new u)) \<and>
         (eventType i = ''INSERT'' \<longrightarrow> new i \<in> set (on_change i (on_change d prev))) \<and>
         (eventType e \<noteq> ''INSERT'' \<longrightarrow>
            (\<forall>b\<in>set (on_change e (on_change d prev)). bus_id b \<noteq> bus_id (old d)))"
proof -
  have absent: "\<forall>b\<in>set (on_change d prev). bus_id b \<noteq> bus_id (new u)"
    using assms by (simp add: on_change_delete)
  then have same: "on_change u (on_change d prev) = on_change d prev"
    using assms(2) by (simp add: on_change_update map_idI)
  have still: "\<forall>b\<in>set (on_change e (on_change d prev)). bus_id b \<noteq> bus_id (old d)"
    if "eventType e \<noteq> ''INSERT''"
  proof
    fix b
    assume "b \<in> set (on_change e (on_change d prev))"
    with no_new_ids [OF that, of "on_change d prev"]
    have "bus_id b \<in> bus_id ` set (on_change d prev)" by blast
    with absent assms(3) show "bus_id b \<noteq> bus_id (old d)" by auto
  qed
  show ?thesis using absent same still by (simp add: on_change_insert)
qed

theorem update_after_delete_absent_witness:
  "on_change (update_of (row ''A'' ''15'' 10))
       (on_change (delete_of (row ''A'' ''15'' 5)) [row ''A'' ''15'' 1, row ''B'' ''27'' 1])
     = [row ''B'' ''27'' 1] \<and>
   on_change (insert_of (row ''A'' ''15'' 10))
       (on_change (delete_of (row ''A'' ''15'' 5)) [row ''A'' ''15'' 1, row ''B'' ''27'' 1])
     = [row ''B'' ''27'' 1, row ''A'' ''15'' 10] \<and>
   on_change (update_of (row ''B'' ''15'' 10))
       (on_change (delete_of (row ''A'' ''15'' 5)) [row ''A'' ''15'' 1, row ''B'' ''27'' 1])
     = [row ''B'' ''15'' 10]"
  using update_after_delete_absent
    [of "delete_of (row ''A'' ''15'' 5)" "update_of (row ''A'' ''15'' 10)"
        "[row ''A'' ''15'' 1, row ''B'' ''27'' 1]" "insert_of (row ''A'' ''15'' 10)"
        "update_of (row ''B'' ''15'' 10)"]
  by (simp add: samples on_change_def)

section \<open>One snapshot for each id\<close>

text \<open>
  C4 as the specification states it: every event keeps at most one snapshot for each id,
  an insert for a stored id in particular. The handler appends the row of every insert:
  an insert for the stored id b1 leaves two snapshots of b1.
\<close>

theorem insert_present_id_counterexample:
  "spec_unique_ids [row ''b1'' ''15'' 1] \<and>
   \<not> spec_unique_ids (on_change (insert_of (row ''b1'' ''15'' 2)) [row ''b1'' ''15'' 1])"
  by (simp add: samples on_change_def spec_unique_ids_def)

text \<open>
  C4, amended. For every store with at most one snapshot for each id, the store after
  an event has at most one snapshot for each id exactly when the event is not an insert
  for an id that is already stored: updates, deletes and messages of other types keep
  the property, an insert keeps it if and only if its id is new.
\<close>

theorem unique_ids_preserved_iff:
  assumes "spec_unique_ids prev"
  shows "spec_unique_ids (on_change p prev) =
         (eventType p = ''INSERT'' \<longrightarrow> bus_id (new p) \<notin> bus_id ` set prev)"
proof (cases p rule: event_cases)
  case ins
  then show ?thesis using assms by (simp add: on_change_insert spec_unique_ids_def)
next
  case upd
  then show ?thesis using assms by (simp add: update_ids spec_unique_ids_def)
next
  case del
  then show ?thesis using assms
    by (simp add: on_change_delete spec_unique_ids_def distinct_map_filter)
next
  case other
  then show ?thesis using assms by (simp add: on_change_def)
qed

theorem unique_ids_preserved_iff_witness:
  "spec_unique_ids [row ''b1'' ''15'' 1] \<and>
   spec_unique_ids (on_change (insert_of (row ''b2'' ''27'' 2)) [row ''b1'' ''15'' 1]) \<and>
   spec_unique_ids (on_change (update_of (row ''b1'' ''27'' 2)) [row ''b1'' ''15'' 1])"
  using unique_ids_preserved_iff [of "[row ''b1'' ''15'' 1]" "insert_of (row ''b2'' ''27'' 2)"]
    unique_ids_preserved_iff [of "[row ''b1'' ''15'' 1]" "update_of (row ''b1'' ''27'' 2)"]
  by (simp add: samples spec_unique_ids_def)

section \<open>The route filter\<close>

text \<open>
  C5 as the specification states it: the projection by route returns the active entities
  of the route and leaves the inactive ones out. The filter reads \<open>route_no\<close> only: an
  inactive bus of route 15 is projected.
\<close>

theorem inactive_projected_counterexample:
  "is_active ((row ''b1'' ''15'' 1)\<lparr>is_active := Val False\<rparr>) = Val False \<and>
   driver_projection [(row ''b1'' ''15'' 1)\<lparr>is_active := Val False\<rparr>]
     = [(row ''b1'' ''15'' 1)\<lparr>is_active := Val False\<rparr>]"
  by (simp add: samples driver_projection_def)

text \<open>
  C5, amended. For every store, the projection with the route filter "15" returns
  exactly the entities whose \<open>route_no\<close> is "15", in the order of the store; \<open>is_active\<close>
  plays no part in it (changing that field in every row changes it in the projected
  rows and nothing else), so inactive entities of route 15 are projected too.
\<close>

theorem driver_projection_by_route_only:
  "(b \<in> set (driver_projection bs) \<longleftrightarrow> b \<in> set bs \<and> route_no b = Val ''15'') \<and>
   subseq (driver_projection bs) bs \<and>
   driver_projection (map (\<lambda>b. b\<lparr>is_active := a b\<rparr>) bs)
     = map (\<lambda>b. b\<lparr>is_active := a b\<rparr>) (driver_projection bs)"
  by (simp add: driver_projection_def filter_map comp_def)

theorem driver_projection_by_route_only_witness:
  "row ''b3'' ''15'' 1 \<in> set (driver_projection [row ''b1'' ''15'' 1, row ''b2'' ''27'' 1, row ''b3'' ''15'' 1]) \<and>
   driver_projection (map (\<lambda>b. b\<lparr>is_active := Val False\<rparr>)
       [row ''b1'' ''15'' 1, row ''b2'' ''27'' 1, row ''b3'' ''15'' 1])
     = [(row ''b1'' ''15'' 1)\<lparr>is_active := Val False\<rparr>, (row ''b3'' ''15'' 1)\<lparr>is_active := Val False\<rparr>]"
  using driver_projection_by_route_only
    [of "row ''b3'' ''15'' 1" "[row ''b1'' ''15'' 1, row ''b2'' ''27'' 1, row ''b3'' ''15'' 1]"
        "\<lambda>b. Val False"]
  by (simp add: samples driver_projection_def)

section \<open>Update: replacement, not merge\<close>

lemma spec_override_eq: "(given = spec_override stored given) = (given = Missing \<longrightarrow> stored = Missing)"
  by (cases given) (auto simp: spec_override_def)

lemma payload_is_merge_iff: "(pl = spec_merge b pl) = spec_covers pl b"
proof -
  have "(pl = spec_merge b pl) =
        (bus_id pl = spec_override (bus_id b) (bus_id pl) \<and>
         route_no pl = spec_override (route_no b) (route_no pl) \<and>
         lat pl = spec_override (lat b) (lat pl) \<and>
         lng pl = spec_override (lng b) (lng pl) \<and>
         crowd_level pl = spec_override (crowd_level b) (crowd_level pl) \<and>
         last_stop pl = spec_override (last_stop b) (last_stop pl) \<and>
         is_active pl = spec_override (is_active b) (is_active pl) \<and>
         updated_at pl = spec_override (updated_at b) (updated_at pl))"
    by (cases pl) (simp add: spec_merge_def)
  then show ?thesis
    by (simp only: spec_override_eq spec_covers_def)
qed

text \<open>
  C6 as the specification states it: for every stored snapshot and every accepted update
  for its id, the result is the merge of the stored snapshot and the payload, a field
  missing from the payload keeping its stored value. The handler puts the payload's row
  in the place of the stored one. The update below is accepted (it has an id, a route
  and a valid position, and its timestamp 2 is newer than the stored 1) and its payload
  has no \<open>last_stop\<close>: the snapshot after it has none, where the merge keeps
  "State Bank".
\<close>

theorem update_drops_fields_counterexample:
  "spec_accepted (update_of ((row ''b1'' ''15'' 2)\<lparr>last_stop := Missing\<rparr>)) (row ''b1'' ''15'' 1) \<and>
   on_change (update_of ((row ''b1'' ''15'' 2)\<lparr>last_stop := Missing\<rparr>)) [row ''b1'' ''15'' 1]
     = [(row ''b1'' ''15'' 2)\<lparr>last_stop := Missing\<rparr>] \<and>
   last_stop (spec_merge (row ''b1'' ''15'' 1) ((row ''b1'' ''15'' 2)\<lparr>last_stop := Missing\<rparr>))
     = Val ''State Bank'' \<and>
   on_change (update_of ((row ''b1'' ''15'' 2)\<lparr>last_stop := Missing\<rparr>)) [row ''b1'' ''15'' 1]
     \<noteq> [spec_merge (row ''b1'' ''15'' 1) ((row ''b1'' ''15'' 2)\<lparr>last_stop := Missing\<rparr>)]"
  by (simp add: samples on_change_def spec_merge_def spec_override_def spec_accepted_def
      spec_malformed_def spec_valid_row_def spec_valid_position_def has_value_def
      spec_timestamp_def spec_older_def)

text \<open>
  C6, amended. For every stored snapshot and every update for its id, accepted or not,
  the resulting snapshot is the row of the payload as a whole: every field present in
  the payload takes the payload's value, and a field missing from the payload is
  missing from the result instead of retaining its stored value. The result is the merge
  of the old snapshot and the payload exactly when the payload misses no field that the
  old snapshot has.
\<close>

theorem update_replaces_whole_row:
  assumes "eventType p = ''UPDATE''" and "i < length prev"
    and "bus_id (prev ! i) = bus_id (new p)"
  shows "on_change p prev ! i = new p \<and>
         (on_change p prev ! i = spec_merge (prev ! i) (new p)) = spec_covers (new p) (prev ! i)"
  using assms by (simp add: on_change_update payload_is_merge_iff)

theorem update_replaces_whole_row_witness:
  "spec_accepted (update_of ((row ''b1'' ''27'' 2)\<lparr>last_stop := Null\<rparr>)) (row ''b1'' ''15'' 1) \<and>
   on_change (update_of ((row ''b1'' ''27'' 2)\<lparr>last_stop := Null\<rparr>))
       [row ''b0'' ''15'' 1, row ''b1'' ''15'' 1] ! 1
     = (row ''b1'' ''27'' 2)\<lparr>last_stop := Null\<rparr> \<and>
   spec_covers ((row ''b1'' ''27'' 2)\<lparr>last_stop := Null\<rparr>) (row ''b1'' ''15'' 1) \<and>
   (row ''b1'' ''27'' 2)\<lparr>last_stop := Null\<rparr>
     = spec_merge (row ''b1'' ''15'' 1) ((row ''b1'' ''27'' 2)\<lparr>last_stop := Null\<rparr>)"
  using update_replaces_whole_row
    [of "update_of ((row ''b1'' ''27'' 2)\<lparr>last_stop := Null\<rparr>)" 1
        "[row ''b0'' ''15'' 1, row ''b1'' ''15'' 1]"]
  by (simp add: samples spec_covers_def on_change_def spec_merge_def spec_override_def
      spec_accepted_def spec_malformed_def spec_valid_row_def spec_valid_position_def
      has_value_def spec_timestamp_def spec_older_def)

section \<open>What a position broadcast writes\<close>

text \<open>
  C7 as the specification states it: a broadcast is an update of exactly one entity, the
  self id, and changes no other entity. The request selects by route: with two buses on
  route 15 both get the position and the timestamp of the sample.
\<close>

theorem broadcast_two_rows_counterexample:
  "bus_id (row ''b1'' ''15'' 1) \<noteq> bus_id (row ''b2'' ''15'' 1) \<and>
   run_update (watch_callback 12.9 74.83 7) [row ''b1'' ''15'' 1, row ''b2'' ''15'' 1, row ''b3'' ''27'' 1]
     = [(row ''b1'' ''15'' 7)\<lparr>lat := Val 12.9, lng := Val 74.83\<rparr>,
        (row ''b2'' ''15'' 7)\<lparr>lat := Val 12.9, lng := Val 74.83\<rparr>,
        row ''b3'' ''27'' 1] \<and>
   row ''b2'' ''15'' 1 \<noteq> (row ''b2'' ''15'' 7)\<lparr>lat := Val 12.9, lng := Val 74.83\<rparr>"
  by (simp add: samples run_update_def watch_callback_def)

text \<open>
  C7, amended. Each emitted position broadcast is an update of the rows whose
  \<open>route_no\<close> is "15", however many there are: in each of them it sets \<open>lat\<close>, \<open>lng\<close> and
  \<open>updated_at\<close> and no other field, and it changes no row of another route. Toggling
  broadcasting stops the position watch, toggling it off and on gives back the state
  before, and toggling changes no entity of the store.
\<close>

theorem broadcast_by_route:
  "length (run_update (watch_callback la lo now) table) = length table \<and>
   (\<forall>i<length table.
      (route_no (table ! i) = Val ''15'' \<longrightarrow>
         run_update (watch_callback la lo now) table ! i
           = (table ! i)\<lparr>lat := Val la, lng := Val lo, updated_at := Val now\<rparr>) \<and>
      (route_no (table ! i) \<noteq> Val ''15'' \<longrightarrow>
         run_update (watch_callback la lo now) table ! i = table ! i)) \<and>
   (watching s \<longrightarrow> \<not> watching (toggle_tracking s)) \<and>
   toggle_tracking (toggle_tracking s) = s \<and>
   buses (toggle_tracking s) = buses s"
  by (simp add: run_update_def watch_callback_def toggle_tracking_def watching_def)

theorem broadcast_by_route_witness:
  "run_update (watch_callback 12.9 74.83 7) [row ''b1'' ''15'' 1, row ''b3'' ''27'' 1]
     = [(row ''b1'' ''15'' 7)\<lparr>lat := Val 12.9, lng := Val 74.83\<rparr>, row ''b3'' ''27'' 1] \<and>
   watching sample_app \<and> \<not> watching (toggle_tracking sample_app) \<and>
   toggle_tracking (toggle_tracking sample_app) = sample_app"
  using broadcast_by_route
    [of "12.9" "74.83" 7 "[row ''b1'' ''15'' 1, row ''b3'' ''27'' 1]" sample_app]
  by (simp add: samples sample_app_def run_update_def watch_callback_def toggle_tracking_def
      watching_def)

section \<open>Malformed events\<close>

text \<open>
  C8 as the specification states it: an event with a required field missing or a
  position out of range leaves the store as it was. The handler checks nothing: an
  insert at latitude 100, and an insert without a longitude, are both stored.
\<close>

theorem invalid_insert_stored_counterexample:
  "spec_malformed (insert_of ((row ''b1'' ''15'' 1)\<lparr>lat := Val 100\<rparr>)) \<and>
   on_change (insert_of ((row ''b1'' ''15'' 1)\<lparr>lat := Val 100\<rparr>)) [] \<noteq> [] \<and>
   spec_malformed (insert_of ((row ''b1'' ''15'' 1)\<lparr>lng := Missing\<rparr>)) \<and>
   on_change (insert_of ((row ''b1'' ''15'' 1)\<lparr>lng := Missing\<rparr>)) [] \<noteq> []"
  by (simp add: samples on_change_def spec_malformed_def spec_valid_row_def spec_valid_position_def
      has_value_def)

text \<open>
  C8, amended. The handler returns a store for every event and raises nothing, and it
  treats a malformed or out-of-range event as any other: the store after the event
  equals the store before exactly when the event is not an insert and, if it is an
  update, every stored row with its id already is the payload's row and, if it is a
  delete, no stored row has its id. A malformed insert is always stored.
\<close>

theorem no_validation:
  "(on_change p prev = prev) =
     (eventType p \<noteq> ''INSERT'' \<and>
      (eventType p = ''UPDATE'' \<longrightarrow> (\<forall>b\<in>set prev. bus_id b = bus_id (new p) \<longrightarrow> b = new p)) \<and>
      (eventType p = ''DELETE'' \<longrightarrow> (\<forall>b\<in>set prev. bus_id b \<noteq> bus_id (old p))))"
proof (cases p rule: event_cases)
  case ins
  then show ?thesis by (simp add: on_change_insert)
next
  case upd
  have "(map (\<lambda>b. if bus_id b = bus_id (new p) then new p else b) prev = prev) =
        (\<forall>b\<in>set prev. bus_id b = bus_id (new p) \<longrightarrow> b = new p)"
    by (induction prev) auto
  then show ?thesis using upd by (simp add: on_change_update)
next
  case del
  then show ?thesis by (simp add: on_change_delete filter_id_conv)
next
  case other
  then show ?thesis by (simp add: on_change_def)
qed

theorem no_validation_witness:
  "spec_malformed (update_of ((row ''b1'' ''15'' 2)\<lparr>lat := Val 100\<rparr>)) \<and>
   on_change (update_of ((row ''b1'' ''15'' 2)\<lparr>lat := Val 100\<rparr>)) [row ''b1'' ''15'' 1]
     \<noteq> [row ''b1'' ''15'' 1] \<and>
   spec_malformed (update_of ((row ''b2'' ''15'' 2)\<lparr>lat := Val 100\<rparr>)) \<and>
   on_change (update_of ((row ''b2'' ''15'' 2)\<lparr>lat := Val 100\<rparr>)) [row ''b1'' ''15'' 1]
     = [row ''b1'' ''15'' 1] \<and>
   spec_malformed (delete_of no_row) \<and>
   on_change (delete_of no_row) [row ''b1'' ''15'' 1] = [row ''b1'' ''15'' 1]"
  using no_validation [of "update_of ((row ''b1'' ''15'' 2)\<lparr>lat := Val 100\<rparr>)" "[row ''b1'' ''15'' 1]"]
    no_validation [of "update_of ((row ''b2'' ''15'' 2)\<lparr>lat := Val 100\<rparr>)" "[row ''b1'' ''15'' 1]"]
    no_validation [of "delete_of no_row" "[row ''b1'' ''15'' 1]"]
  by (simp add: samples spec_malformed_def spec_valid_row_def spec_valid_position_def on_change_def
      has_value_def)

section \<open>Marker reconciliation: create, move, remove\<close>

subsection \<open>One bus\<close>

lemma place_bus_other:
  "place_bus b st = Inr s1 \<Longrightarrow> key_of b \<noteq> k \<Longrightarrow> markers s1 k = markers st k"
  by (auto simp: place_bus_def split: option.splits if_splits)

lemma place_bus_next_el: "place_bus b st = Inr s1 \<Longrightarrow> next_el st \<le> next_el s1"
  by (auto simp: place_bus_def split: option.splits if_splits)

lemma place_bus_map_current: "place_bus b st = Inr s1 \<Longrightarrow> map_current s1 = map_current st"
  by (auto simp: place_bus_def split: option.splits if_splits)

lemma place_bus_converts:
  "place_bus b st = Inr s1 \<Longrightarrow> \<exists>ll. LngLat_convert (lng b) (lat b) = Some ll"
  by (auto simp: place_bus_def split: option.splits if_splits)

lemma place_bus_moves:
  "place_bus b st = Inr s1 \<Longrightarrow> markers st (key_of b) = Some m \<Longrightarrow>
   markers s1 (key_of b) = Some (m\<lparr>lngLat := the (LngLat_convert (lng b) (lat b))\<rparr>)"
  by (auto simp: place_bus_def split: option.splits)

lemma place_bus_makes:
  "place_bus b st = Inr s1 \<Longrightarrow> markers st (key_of b) = None \<Longrightarrow>
   markers s1 (key_of b) =
     Some \<lparr>el = next_el st, lngLat = the (LngLat_convert (lng b) (lat b)),
           popup = (route_no b, last_stop b)\<rparr> \<and>
   next_el s1 = Suc (next_el st)"
  by (auto simp: place_bus_def split: option.splits if_splits)

lemma place_bus_returns:
  "key_of b \<notin> set inherited_keys \<Longrightarrow> LngLat_convert (lng b) (lat b) \<noteq> None \<Longrightarrow>
   \<exists>s1. place_bus b st = Inr s1"
  by (auto simp: place_bus_def split: option.splits)

lemma place_bus_throws:
  "LngLat_convert (lng b) (lat b) = None \<Longrightarrow> \<exists>e. place_bus b st = Inl e"
  by (simp add: place_bus_def split: option.splits)

subsection \<open>The loop over the buses\<close>

lemma place_all_Cons:
  "place_all (b # bs) st = Inr s2 \<Longrightarrow>
   \<exists>s1. place_bus b st = Inr s1 \<and> place_all bs s1 = Inr s2"
  by (cases "place_bus b st") simp_all

lemma place_all_returns:
  "\<forall>b\<in>set bs. key_of b \<notin> set inherited_keys \<and> LngLat_convert (lng b) (lat b) \<noteq> None \<Longrightarrow>
   \<exists>s2. place_all bs st = Inr s2"
proof (induction bs arbitrary: st)
  case Nil
  show ?case by simp
next
  case (Cons b bs)
  then obtain s1 where "place_bus b st = Inr s1"
    using place_bus_returns [of b st] by auto
  with Cons show ?case by simp
qed

lemma place_all_converts:
  "place_all bs st = Inr s2 \<Longrightarrow> b \<in> set bs \<Longrightarrow> \<exists>ll. LngLat_convert (lng b) (lat b) = Some ll"
proof (induction bs arbitrary: st)
  case Nil
  then show ?case by simp
next
  case (Cons c bs)
  from place_all_Cons [OF Cons.prems(1)] obtain s1
    where s1: "place_bus c st = Inr s1" "place_all bs s1 = Inr s2" by blast
  show ?case
  proof (cases "b = c")
    case True
    from place_bus_converts [OF s1(1)] True show ?thesis by simp
  next
    case False
    with Cons.prems(2) have "b \<in> set bs" by simp
    with s1(2) show ?thesis by (rule Cons.IH)
  qed
qed

lemma place_all_next_el: "place_all bs st = Inr s2 \<Longrightarrow> next_el st \<le> next_el s2"
proof (induction bs arbitrary: st)
  case Nil
  then show ?case by simp
next
  case (Cons b bs)
  from place_all_Cons [OF Cons.prems] obtain s1
    where s1: "place_bus b st = Inr s1" "place_all bs s1 = Inr s2" by blast
  have "next_el st \<le> next_el s1" using s1(1) by (rule place_bus_next_el)
  also have "\<dots> \<le> next_el s2" using s1(2) by (rule Cons.IH)
  finally show ?case .
qed

lemma place_all_map_current: "place_all bs st = Inr s2 \<Longrightarrow> map_current s2 = map_current st"
proof (induction bs arbitrary: st)
  case Nil
  then show ?case by simp
next
  case (Cons b bs)
  from place_all_Cons [OF Cons.prems] obtain s1
    where s1: "place_bus b st = Inr s1" "place_all bs s1 = Inr s2" by blast
  then show ?case using Cons.IH [of s1] place_bus_map_current [of b st s1] by simp
qed

lemma place_all_other:
  "place_all bs st = Inr s2 \<Longrightarrow> \<forall>b\<in>set bs. key_of b \<noteq> k \<Longrightarrow> markers s2 k = markers st k"
proof (induction bs arbitrary: st)
  case Nil
  then show ?case by simp
next
  case (Cons b bs)
  from place_all_Cons [OF Cons.prems(1)] obtain s1
    where s1: "place_bus b st = Inr s1" "place_all bs s1 = Inr s2" by blast
  from Cons.prems(2) have "key_of b \<noteq> k" and rest: "\<forall>b\<in>set bs. key_of b \<noteq> k" by simp_all
  then have "markers s1 k = markers st k" using s1(1) by (simp add: place_bus_other)
  with Cons.IH [OF s1(2) rest] show ?case by simp
qed

lemma place_all_present:
  "place_all bs st = Inr s2 \<Longrightarrow> markers st k = Some m \<Longrightarrow>
   markers s2 k =
     Some (case filter (\<lambda>b. key_of b = k) bs of [] \<Rightarrow> m
           | c # cs \<Rightarrow>
               m\<lparr>lngLat := the (LngLat_convert (lng (last (c # cs))) (lat (last (c # cs))))\<rparr>)"
proof (induction bs arbitrary: st m)
  case Nil
  then show ?case by simp
next
  case (Cons b bs)
  from place_all_Cons [OF Cons.prems(1)] obtain s1
    where s1: "place_bus b st = Inr s1" "place_all bs s1 = Inr s2" by blast
  show ?case
  proof (cases "key_of b = k")
    case True
    with Cons.prems(2) s1(1)
    have "markers s1 k = Some (m\<lparr>lngLat := the (LngLat_convert (lng b) (lat b))\<rparr>)"
      using place_bus_moves [of b st s1 m] by simp
    from Cons.IH [OF s1(2) this] True show ?thesis
      by (simp split: list.splits)
  next
    case False
    with Cons.prems(2) s1(1) have "markers s1 k = Some m"
      by (simp add: place_bus_other)
    from Cons.IH [OF s1(2) this] False show ?thesis by simp
  qed
qed

lemma place_all_absent:
  "place_all bs st = Inr s2 \<Longrightarrow> markers st k = None \<Longrightarrow> \<exists>b\<in>set bs. key_of b = k \<Longrightarrow>
   \<exists>e. next_el st \<le> e \<and> e < next_el s2 \<and>
     markers s2 k =
       Some \<lparr>el = e,
             lngLat = the (LngLat_convert (lng (last (filter (\<lambda>b. key_of b = k) bs)))
                                          (lat (last (filter (\<lambda>b. key_of b = k) bs)))),
             popup = (route_no (hd (filter (\<lambda>b. key_of b = k) bs)),
                      last_stop (hd (filter (\<lambda>b. key_of b = k) bs)))\<rparr>"
proof (induction bs arbitrary: st)
  case Nil
  then show ?case by simp
next
  case (Cons b bs)
  from place_all_Cons [OF Cons.prems(1)] obtain s1
    where s1: "place_bus b st = Inr s1" "place_all bs s1 = Inr s2" by blast
  show ?case
  proof (cases "key_of b = k")
    case True
    let ?m = "\<lparr>el = next_el st, lngLat = the (LngLat_convert (lng b) (lat b)),
               popup = (route_no b, last_stop b)\<rparr>"
    from True Cons.prems(2) s1(1)
    have made: "markers s1 k = Some ?m" and n: "next_el s1 = Suc (next_el st)"
      using place_bus_makes [of b st s1] by simp_all
    have "next_el s1 \<le> next_el s2" using s1(2) by (rule place_all_next_el)
    with n have "next_el st < next_el s2" by simp
    moreover from place_all_present [OF s1(2) made] True
    have "markers s2 k =
       Some \<lparr>el = next_el st,
             lngLat = the (LngLat_convert (lng (last (filter (\<lambda>b. key_of b = k) (b # bs))))
                                          (lat (last (filter (\<lambda>b. key_of b = k) (b # bs))))),
             popup = (route_no (hd (filter (\<lambda>b. key_of b = k) (b # bs))),
                      last_stop (hd (filter (\<lambda>b. key_of b = k) (b # bs))))\<rparr>"
      by (simp split: list.splits)
    ultimately show ?thesis by blast
  next
    case False
    with Cons.prems s1(1) have none: "markers s1 k = None"
      and ex: "\<exists>b\<in>set bs. key_of b = k"
      by (simp_all add: place_bus_other)
    from Cons.IH [OF s1(2) none ex] obtain e where
      e: "next_el s1 \<le> e" "e < next_el s2"
      and mk: "markers s2 k =
       Some \<lparr>el = e,
             lngLat = the (LngLat_convert (lng (last (filter (\<lambda>b. key_of b = k) bs)))
                                          (lat (last (filter (\<lambda>b. key_of b = k) bs)))),
             popup = (route_no (hd (filter (\<lambda>b. key_of b = k) bs)),
                      last_stop (hd (filter (\<lambda>b. key_of b = k) bs)))\<rparr>"
      by blast
    from e(1) place_bus_next_el [OF s1(1)] have "next_el st \<le> e" by simp
    with e(2) mk False show ?thesis by auto
  qed
qed

lemma place_all_throws:
  "\<exists>b\<in>set bs. LngLat_convert (lng b) (lat b) = None \<Longrightarrow> \<exists>e. place_all bs st = Inl e"
proof (cases "place_all bs st")
  case (Inl e)
  then show ?thesis by simp
next
  case (Inr s2)
  assume "\<exists>b\<in>set bs. LngLat_convert (lng b) (lat b) = None"
  with place_all_converts [OF Inr] show ?thesis by fastforce
qed

subsection \<open>The effect\<close>

lemma filter_key_of:
  "\<forall>b\<in>set bs. has_value (bus_id b) \<Longrightarrow>
   filter (\<lambda>b. key_of b = k) bs = filter (\<lambda>b. bus_id b = Val k) bs"
  by (rule filter_cong) (auto simp: key_of_def has_value_def split: property.splits)

lemma placeable_key:
  "placeable b \<Longrightarrow>
   key_of b \<notin> set inherited_keys \<and> has_value (bus_id b) \<and> LngLat_convert (lng b) (lat b) \<noteq> None"
  by (auto simp: placeable_def plain_id_def key_of_def has_value_def split: property.splits)

lemma last_filter_in:
  "\<exists>b\<in>set bs. P b \<Longrightarrow> last (filter P bs) \<in> set bs"
proof -
  assume "\<exists>b\<in>set bs. P b"
  then have "filter P bs \<noteq> []" by (simp add: filter_empty_conv)
  then have "last (filter P bs) \<in> set (filter P bs)" by (rule last_in_set)
  then show ?thesis by simp
qed

lemma reconcile_returns:
  "\<forall>b\<in>set bs. placeable b \<Longrightarrow> \<exists>s2. reconcile bs st = Inr s2"
  by (simp add: reconcile_def place_all_returns placeable_key)

lemma reconcile_throws:
  "map_current st \<Longrightarrow> \<exists>b\<in>set bs. LngLat_convert (lng b) (lat b) = None \<Longrightarrow>
   \<exists>e. reconcile bs st = Inl e"
  by (simp add: reconcile_def place_all_throws)

lemma reconcile_map_current: "reconcile bs st = Inr s2 \<Longrightarrow> map_current s2 = map_current st"
  by (auto simp: reconcile_def dest: place_all_map_current split: if_splits)

lemma reconcile_kept:
  assumes "reconcile bs st = Inr s2" and "map_current st"
    and "\<forall>b\<in>set bs. has_value (bus_id b)"
    and "\<exists>b\<in>set bs. bus_id b = Val k" and "markers st k = Some m"
  shows "\<exists>ll. LngLat_convert (lng (last (filter (\<lambda>b. bus_id b = Val k) bs)))
                              (lat (last (filter (\<lambda>b. bus_id b = Val k) bs))) = Some ll \<and>
              markers s2 k = Some (m\<lparr>lngLat := ll\<rparr>)"
proof -
  let ?st = "st\<lparr>markers := remove_missing bs (markers st)\<rparr>"
  let ?c = "last (filter (\<lambda>b. bus_id b = Val k) bs)"
  from assms(1,2) have run: "place_all bs ?st = Inr s2" by (simp add: reconcile_def)
  from assms(4,5) have "markers ?st k = Some m" by (simp add: remove_missing_def)
  from place_all_present [OF run this]
  have "markers s2 k =
     Some (case filter (\<lambda>b. bus_id b = Val k) bs of [] \<Rightarrow> m
           | c # cs \<Rightarrow>
               m\<lparr>lngLat := the (LngLat_convert (lng (last (c # cs))) (lat (last (c # cs))))\<rparr>)"
    by (simp add: filter_key_of [OF assms(3)])
  moreover from assms(4) have "filter (\<lambda>b. bus_id b = Val k) bs \<noteq> []"
    by (simp add: filter_empty_conv)
  ultimately have "markers s2 k = Some (m\<lparr>lngLat := the (LngLat_convert (lng ?c) (lat ?c))\<rparr>)"
    by (simp split: list.splits)
  moreover from assms(4) have "?c \<in> set bs" by (rule last_filter_in)
  from place_all_converts [OF run this]
  obtain ll where "LngLat_convert (lng ?c) (lat ?c) = Some ll" by blast
  ultimately show ?thesis by simp
qed

lemma reconcile_made:
  assumes "reconcile bs st = Inr s2" and "map_current st"
    and "\<forall>b\<in>set bs. has_value (bus_id b)"
    and "\<exists>b\<in>set bs. bus_id b = Val k" and "markers st k = None"
  shows "\<exists>e ll. next_el st \<le> e \<and> e < next_el s2 \<and>
     LngLat_convert (lng (last (filter (\<lambda>b. bus_id b = Val k) bs)))
                    (lat (last (filter (\<lambda>b. bus_id b = Val k) bs))) = Some ll \<and>
     markers s2 k =
       Some \<lparr>el = e, lngLat = ll,
             popup = (route_no (hd (filter (\<lambda>b. bus_id b = Val k) bs)),
                      last_stop (hd (filter (\<lambda>b. bus_id b = Val k) bs)))\<rparr>"
proof -
  let ?st = "st\<lparr>markers := remove_missing bs (markers st)\<rparr>"
  let ?c = "last (filter (\<lambda>b. bus_id b = Val k) bs)"
  from assms(1,2) have run: "place_all bs ?st = Inr s2" by (simp add: reconcile_def)
  from assms(5) have none: "markers ?st k = None" by (simp add: remove_missing_def)
  from assms(4) have ex: "\<exists>b\<in>set bs. key_of b = k" by (force simp: key_of_def)
  from assms(4) have "?c \<in> set bs" by (rule last_filter_in)
  from place_all_converts [OF run this]
  obtain ll where "LngLat_convert (lng ?c) (lat ?c) = Some ll" by blast
  with place_all_absent [OF run none ex] show ?thesis
    by (simp add: filter_key_of [OF assms(3)])
qed

lemma reconcile_removed:
  assumes "reconcile bs st = Inr s2" and "map_current st"
    and "\<forall>b\<in>set bs. has_value (bus_id b)"
    and "\<not> (\<exists>b\<in>set bs. bus_id b = Val k)"
  shows "markers s2 k = None"
proof -
  let ?st = "st\<lparr>markers := remove_missing bs (markers st)\<rparr>"
  from assms(1,2) have run: "place_all bs ?st = Inr s2" by (simp add: reconcile_def)
  from assms(3,4) have "\<forall>b\<in>set bs. key_of b \<noteq> k"
    by (auto simp: key_of_def has_value_def split: property.splits)
  from place_all_other [OF run this] assms(4) show ?thesis
    by (simp add: remove_missing_def)
qed

lemma reconcile_all_same_element:
  assumes "map_current st" and "markers st k = Some m"
    and "\<forall>bs\<in>set bss. (\<forall>b\<in>set bs. placeable b) \<and> (\<exists>b\<in>set bs. bus_id b = Val k)"
  shows "\<exists>s2 m'. reconcile_all bss st = Inr s2 \<and> markers s2 k = Some m' \<and>
           el m' = el m \<and> popup m' = popup m"
  using assms
proof (induction bss arbitrary: st m)
  case Nil
  then show ?case by simp
next
  case (Cons bs bss)
  from Cons.prems(3) have ok: "\<forall>b\<in>set bs. placeable b"
    and ids: "\<forall>b\<in>set bs. has_value (bus_id b)" and here: "\<exists>b\<in>set bs. bus_id b = Val k"
    by (simp_all add: placeable_key)
  from reconcile_returns [OF ok] obtain s1 where s1: "reconcile bs st = Inr s1" by blast
  from reconcile_kept [OF s1 Cons.prems(1) ids here Cons.prems(2)]
  obtain ll where kept: "markers s1 k = Some (m\<lparr>lngLat := ll\<rparr>)" by blast
  from s1 Cons.prems(1) have "map_current s1" by (simp add: reconcile_map_current)
  moreover note kept
  moreover from Cons.prems(3) have
    "\<forall>bs\<in>set bss. (\<forall>b\<in>set bs. placeable b) \<and> (\<exists>b\<in>set bs. bus_id b = Val k)"
    by simp
  ultimately have "\<exists>s2 m'. reconcile_all bss s1 = Inr s2 \<and> markers s2 k = Some m' \<and>
      el m' = el (m\<lparr>lngLat := ll\<rparr>) \<and> popup m' = popup (m\<lparr>lngLat := ll\<rparr>)"
    by (rule Cons.IH)
  with s1 show ?case by simp
qed

text \<open>
  C9 as the specification states it: for any new list, a marker is made for every id of
  the list that has none and the marker of every id in both is moved. The effect ends
  at the first bus whose coordinates the map library rejects, and the store can hold
  such a bus, since nothing validates an insert: with a bus at latitude 100 first in
  the list, the effect throws, the marker of b1 is not moved and no marker is made for
  b2.
\<close>

theorem markers_abort_counterexample:
  "plain_id (moved (row ''b1'' ''15'' 2) 100 74.83) \<and> plain_id (row ''b2'' ''27'' 2) \<and>
   map_current sample_map \<and> markers sample_map ''b2'' = None \<and>
   reconcile [moved (row ''b1'' ''15'' 2) 100 74.83, row ''b2'' ''27'' 2] sample_map
     = Inl InvalidLngLat"
  by (simp add: samples moved_def sample_map_def plain_id_def inherited_keys_def reconcile_def
      remove_missing_def place_bus_def key_of_def LngLat_convert_def to_number_def)

text \<open>
  C9, amended. Let the map be there. If every bus of the new list is placeable (a plain
  id, and coordinates that the map library accepts: numbers, with a latitude from -90
  to 90), the effect returns, and for every id \<open>k\<close>: if \<open>k\<close> is in the new list and has
  no marker, a marker is made for it, on an element made in this run, at the position
  of the bus; if \<open>k\<close> is in the new list and has a marker, that marker stays, with the
  same element and the same popup, and only its position is set (to that of the last
  bus of the list with this id); if \<open>k\<close> is not in the new list, it has no marker
  afterwards. Over any further lists of placeable buses that all contain \<open>k\<close>, the
  marker of \<open>k\<close> keeps its element and its popup: it is never removed and made again.
  If some bus of the new list has coordinates that the library rejects, the effect
  ends with an exception.
\<close>

theorem markers_reconciled:
  assumes "map_current st"
  shows "((\<forall>b\<in>set bs. placeable b) \<longrightarrow>
     (\<exists>s2. reconcile bs st = Inr s2 \<and>
     ((\<exists>b\<in>set bs. bus_id b = Val k) \<and> markers st k = None \<longrightarrow>
        (\<exists>e ll. next_el st \<le> e \<and> e < next_el s2 \<and>
           LngLat_convert (lng (last (filter (\<lambda>b. bus_id b = Val k) bs)))
                          (lat (last (filter (\<lambda>b. bus_id b = Val k) bs))) = Some ll \<and>
           markers s2 k =
             Some \<lparr>el = e, lngLat = ll,
                   popup = (route_no (hd (filter (\<lambda>b. bus_id b = Val k) bs)),
                            last_stop (hd (filter (\<lambda>b. bus_id b = Val k) bs)))\<rparr>)) \<and>
     ((\<exists>b\<in>set bs. bus_id b = Val k) \<and> markers st k = Some m \<longrightarrow>
        (\<exists>ll. LngLat_convert (lng (last (filter (\<lambda>b. bus_id b = Val k) bs)))
                              (lat (last (filter (\<lambda>b. bus_id b = Val k) bs))) = Some ll \<and>
           markers s2 k = Some (m\<lparr>lngLat := ll\<rparr>))) \<and>
     (\<not> (\<exists>b\<in>set bs. bus_id b = Val k) \<longrightarrow> markers s2 k = None) \<and>
     ((\<forall>cs\<in>set bss. (\<forall>b\<in>set cs. placeable b) \<and> (\<exists>b\<in>set cs. bus_id b = Val k)) \<and>
      markers s2 k = Some m' \<longrightarrow>
        (\<exists>s3 m''. reconcile_all bss s2 = Inr s3 \<and> markers s3 k = Some m'' \<and>
           el m'' = el m' \<and> popup m'' = popup m')))) \<and>
   ((\<exists>b\<in>set bs. LngLat_convert (lng b) (lat b) = None) \<longrightarrow> (\<exists>e. reconcile bs st = Inl e))"
proof (intro conjI impI)
  assume ok: "\<forall>b\<in>set bs. placeable b"
  then have ids: "\<forall>b\<in>set bs. has_value (bus_id b)" by (simp add: placeable_key)
  from reconcile_returns [OF ok] obtain s2 where s2: "reconcile bs st = Inr s2" by blast
  have cur: "map_current s2" using s2 assms by (simp add: reconcile_map_current)
  show "\<exists>s2. reconcile bs st = Inr s2 \<and>
     ((\<exists>b\<in>set bs. bus_id b = Val k) \<and> markers st k = None \<longrightarrow>
        (\<exists>e ll. next_el st \<le> e \<and> e < next_el s2 \<and>
           LngLat_convert (lng (last (filter (\<lambda>b. bus_id b = Val k) bs)))
                          (lat (last (filter (\<lambda>b. bus_id b = Val k) bs))) = Some ll \<and>
           markers s2 k =
             Some \<lparr>el = e, lngLat = ll,
                   popup = (route_no (hd (filter (\<lambda>b. bus_id b = Val k) bs)),
                            last_stop (hd (filter (\<lambda>b. bus_id b = Val k) bs)))\<rparr>)) \<and>
     ((\<exists>b\<in>set bs. bus_id b = Val k) \<and> markers st k = Some m \<longrightarrow>
        (\<exists>ll. LngLat_convert (lng (last (filter (\<lambda>b. bus_id b = Val k) bs)))
                              (lat (last (filter (\<lambda>b. bus_id b = Val k) bs))) = Some ll \<and>
           markers s2 k = Some (m\<lparr>lngLat := ll\<rparr>))) \<and>
     (\<not> (\<exists>b\<in>set bs. bus_id b = Val k) \<longrightarrow> markers s2 k = None) \<and>
     ((\<forall>cs\<in>set bss. (\<forall>b\<in>set cs. placeable b) \<and> (\<exists>b\<in>set cs. bus_id b = Val k)) \<and>
      markers s2 k = Some m' \<longrightarrow>
        (\<exists>s3 m''. reconcile_all bss s2 = Inr s3 \<and> markers s3 k = Some m'' \<and>
           el m'' = el m' \<and> popup m'' = popup m'))"
    using s2 reconcile_made [OF s2 assms ids, of k] reconcile_kept [OF s2 assms ids, of k m]
      reconcile_removed [OF s2 assms ids, of k] reconcile_all_same_element [OF cur, of k m' bss]
    by simp
next
  assume "\<exists>b\<in>set bs. LngLat_convert (lng b) (lat b) = None"
  with assms show "\<exists>e. reconcile bs st = Inl e" by (rule reconcile_throws)
qed

theorem markers_reconciled_witness:
  "(case reconcile [moved (row ''b1'' ''15'' 2) 12.9 74.83, row ''b2'' ''27'' 2] sample_map of
     Inl e \<Rightarrow> False
   | Inr s2 \<Rightarrow>
       markers s2 ''b1'' = Some \<lparr>el = 0, lngLat = (74.83, 12.9),
                                 popup = (Val ''15'', Val ''State Bank'')\<rparr> \<and>
       markers s2 ''b2'' = Some \<lparr>el = 2, lngLat = (74.8427, 12.8654),
                                 popup = (Val ''27'', Val ''State Bank'')\<rparr> \<and>
       markers s2 ''b3'' = None \<and>
       (case reconcile_all [[row ''b1'' ''15'' 3], [row ''b2'' ''27'' 4, row ''b1'' ''15'' 4]] s2 of
          Inl e \<Rightarrow> False
        | Inr s3 \<Rightarrow> map_option el (markers s3 ''b1'') = Some 0)) \<and>
   reconcile [row ''b2'' ''27'' 2, (row ''b1'' ''15'' 2)\<lparr>lat := Missing\<rparr>] sample_map
     = Inl InvalidLngLat"
  using markers_reconciled
      [of sample_map "[moved (row ''b1'' ''15'' 2) 12.9 74.83, row ''b2'' ''27'' 2]" "''b1''"
          "\<lparr>el = 0, lngLat = (74.8427, 12.8654), popup = (Val ''15'', Val ''State Bank'')\<rparr>"
          "[[row ''b1'' ''15'' 3], [row ''b2'' ''27'' 4, row ''b1'' ''15'' 4]]"
          "\<lparr>el = 0, lngLat = (74.83, 12.9), popup = (Val ''15'', Val ''State Bank'')\<rparr>"]
    markers_reconciled
      [of sample_map "[moved (row ''b1'' ''15'' 2) 12.9 74.83, row ''b2'' ''27'' 2]" "''b2''"]
    markers_reconciled
      [of sample_map "[moved (row ''b1'' ''15'' 2) 12.9 74.83, row ''b2'' ''27'' 2]" "''b3''"]
    markers_reconciled
      [of sample_map "[row ''b2'' ''27'' 2, (row ''b1'' ''15'' 2)\<lparr>lat := Missing\<rparr>]"]
  by (simp add: samples moved_def sample_map_def placeable_def plain_id_def inherited_keys_def
      reconcile_def remove_missing_def place_bus_def key_of_def LngLat_convert_def to_number_def)

section \<open>Unrecognised event types\<close>

text \<open>
  C10. For every store and every payload whose \<open>eventType\<close> is none of INSERT, UPDATE
  and DELETE, the handler leaves the store exactly as it was.
\<close>

theorem on_change_other_event_unchanged:
  "eventType p \<noteq> ''INSERT'' \<Longrightarrow> eventType p \<noteq> ''UPDATE'' \<Longrightarrow> eventType p \<noteq> ''DELETE''
   \<Longrightarrow> on_change p prev = prev"
  by (simp add: on_change_def)

theorem on_change_other_event_unchanged_witness:
  "on_change \<lparr>eventType = ''TRUNCATE'', new = no_row, old = no_row\<rparr> [row ''b1'' ''15'' 1]
     = [row ''b1'' ''15'' 1]"
  using on_change_other_event_unchanged
    [of "\<lparr>eventType = ''TRUNCATE'', new = no_row, old = no_row\<rparr>" "[row ''b1'' ''15'' 1]"]
  by simp

end
